theory Spec2Isabelle
  imports Complex_Main "HOL-Library.Multiset"
begin

section \<open>Python values, errors and the random module\<close>

text \<open>
  The generator is written in Python. Every exception the modelled code can raise is a
  value of \<open>py_error\<close>, and a function that can raise returns \<open>py_error + 'a\<close>.
\<close>

datatype py_error = ValueError | IndexError | KeyError | OverflowError

text \<open>
  The shared pseudo-random source is a tape of rationals that the program consumes from
  the left, one entry per draw; a tape that has run out reads as zeros. Every function
  that draws takes the tape and returns what is left of it.
\<close>

type_synonym rng = "rat list"

definition random_random :: "rng \<Rightarrow> rat \<times> rng" where
  \<comment> \<open>\<open>random.random()\<close>: the next number of the half-open interval from 0 to 1.\<close>
  "random_random g = (case g of [] \<Rightarrow> (0, []) | q # g' \<Rightarrow> (frac q, g'))"

definition randbelow :: "nat \<Rightarrow> rng \<Rightarrow> nat \<times> rng" where
  \<comment> \<open>A natural number below \<open>n\<close> (for \<open>n > 0\<close>).\<close>
  "randbelow n g = (let (r, g') = random_random g in (nat \<lfloor>r * of_nat n\<rfloor>, g'))"

definition random_randint :: "int \<Rightarrow> int \<Rightarrow> rng \<Rightarrow> py_error + (int \<times> rng)" where
  \<comment> \<open>\<open>random.randint(a, b)\<close>: an integer from a to b, both included; an empty range raises.\<close>
  "random_randint a b g =
     (if b < a then Inl ValueError
      else let (j, g') = randbelow (nat (b - a + 1)) g in Inr (a + int j, g'))"

definition random_uniform :: "rat \<Rightarrow> rat \<Rightarrow> rng \<Rightarrow> rat \<times> rng" where
  \<comment> \<open>\<open>random.uniform(a, b)\<close> is \<open>a + (b - a) * random()\<close>.\<close>
  "random_uniform a b g = (let (r, g') = random_random g in (a + (b - a) * r, g'))"

definition random_choice :: "'a list \<Rightarrow> rng \<Rightarrow> py_error + ('a \<times> rng)" where
  \<comment> \<open>\<open>random.choice(seq)\<close>: an empty sequence raises IndexError.\<close>
  "random_choice xs g =
     (if xs = [] then Inl IndexError
      else let (j, g') = randbelow (length xs) g in Inr (xs ! j, g'))"

fun sample_pool :: "'a list \<Rightarrow> nat \<Rightarrow> rng \<Rightarrow> 'a list \<times> rng" where
  \<comment> \<open>The selection loop of \<open>random.sample\<close>: pick a position of the pool, then move the
      pool's last item into the vacancy and shorten the pool by one.\<close>
  "sample_pool pool 0 g = ([], g)"
| "sample_pool pool (Suc k) g =
     (let (j, g1) = randbelow (length pool) g;
          (rest, g2) = sample_pool (butlast (pool[j := last pool])) k g1
      in (pool ! j # rest, g2))"

definition random_sample :: "'a list \<Rightarrow> int \<Rightarrow> rng \<Rightarrow> py_error + ('a list \<times> rng)" where
  \<comment> \<open>\<open>random.sample(population, k)\<close>: raises unless \<open>0 \<le> k \<le> len(population)\<close>.\<close>
  "random_sample population k g =
     (if k < 0 \<or> int (length population) < k then Inl ValueError
      else Inr (sample_pool population (nat k) g))"

subsection \<open>Numbers as weights\<close>

text \<open>
  The weights handed to \<open>random.choices\<close> are Python numbers: integers of any size, or
  floats. A float is an IEEE 754 double, that is a finite value, an infinity or a NaN; a
  finite float is kept as the rational it denotes (the sign of a zero is not kept: no
  comparison reads it).
\<close>

datatype py_float = Fin rat | PInf | NInf | NaN

datatype py_num = PyInt int | PyFloat py_float

definition round_half_even :: "rat \<Rightarrow> int" where
  \<comment> \<open>The nearest integer, a tie going to the even one.\<close>
  "round_half_even x =
     (let f = \<lfloor>x\<rfloor>; d = x - of_int f in
      if d < 1 / 2 then f
      else if 1 / 2 < d then f + 1
      else if even f then f else f + 1)"

function bit_length :: "int \<Rightarrow> nat" where
  \<comment> \<open>The number of binary digits of a positive integer; 0 for the others.\<close>
  "bit_length n = (if n \<le> 0 then 0 else Suc (bit_length (n div 2)))"
  by pat_completeness auto
termination
  by (relation "measure nat") auto

declare bit_length.simps [simp del]

definition pow2 :: "int \<Rightarrow> rat" where
  \<comment> \<open>The power of two of an integer exponent.\<close>
  "pow2 k = (if 0 \<le> k then 2 ^ nat k else 1 / 2 ^ nat (- k))"

definition ilog2 :: "rat \<Rightarrow> int" where
  \<comment> \<open>For a positive \<open>a\<close>, the binary exponent of \<open>a\<close>: the \<open>k\<close> with
      \<open>2 ^ k \<le> a < 2 ^ (k + 1)\<close>.\<close>
  "ilog2 a =
     (if 1 \<le> a then int (bit_length \<lfloor>a\<rfloor>) - 1
      else - int (bit_length (\<lceil>1 / a\<rceil> - 1)))"

definition float_round :: "rat \<Rightarrow> py_float" where
  \<comment> \<open>The double that an exact result is rounded to: 53 significant binary digits at
      the binary exponent of the value, which is taken no lower than -1022 (below it the
      doubles are evenly spaced); nearest value, ties to even; a rounded magnitude of
      \<open>2 ^ 1024\<close> or more is an infinity.\<close>
  "float_round x =
     (let a = \<bar>x\<bar>;
          e = max (ilog2 a) (- 1022);
          ulp = pow2 (e - 52);
          y = of_int (round_half_even (a / ulp)) * ulp
      in if 2 ^ 1024 \<le> y then (if x < 0 then NInf else PInf)
         else Fin (if x < 0 then - y else y))"

definition float_of_int :: "int \<Rightarrow> py_error + py_float" where
  \<comment> \<open>The conversion of an integer operand to float: an integer that rounds beyond the
      largest double raises OverflowError.\<close>
  "float_of_int i =
     (case float_round (of_int i) of
        Fin y \<Rightarrow> Inr (Fin y)
      | _ \<Rightarrow> Inl OverflowError)"

fun float_add :: "py_float \<Rightarrow> py_float \<Rightarrow> py_float" where
  "float_add (Fin x) (Fin y) = float_round (x + y)"
| "float_add NaN b = NaN"
| "float_add a NaN = NaN"
| "float_add PInf NInf = NaN"
| "float_add NInf PInf = NaN"
| "float_add PInf b = PInf"
| "float_add a PInf = PInf"
| "float_add NInf b = NInf"
| "float_add a NInf = NInf"

fun float_mul :: "py_float \<Rightarrow> py_float \<Rightarrow> py_float" where
  "float_mul (Fin x) (Fin y) = float_round (x * y)"
| "float_mul NaN b = NaN"
| "float_mul a NaN = NaN"
| "float_mul (Fin x) PInf = (if x = 0 then NaN else if 0 < x then PInf else NInf)"
| "float_mul (Fin x) NInf = (if x = 0 then NaN else if 0 < x then NInf else PInf)"
| "float_mul PInf (Fin y) = (if y = 0 then NaN else if 0 < y then PInf else NInf)"
| "float_mul NInf (Fin y) = (if y = 0 then NaN else if 0 < y then NInf else PInf)"
| "float_mul PInf PInf = PInf"
| "float_mul NInf NInf = PInf"
| "float_mul PInf NInf = NInf"
| "float_mul NInf PInf = NInf"

fun float_less :: "py_float \<Rightarrow> py_float \<Rightarrow> bool" where
  \<comment> \<open>\<open>a < b\<close>: every comparison with a NaN is false.\<close>
  "float_less (Fin x) (Fin y) = (x < y)"
| "float_less NaN b = False"
| "float_less a NaN = False"
| "float_less a NInf = False"
| "float_less NInf b = True"
| "float_less PInf b = False"
| "float_less a PInf = True"

fun float_le :: "py_float \<Rightarrow> py_float \<Rightarrow> bool" where
  \<comment> \<open>\<open>a <= b\<close>.\<close>
  "float_le (Fin x) (Fin y) = (x \<le> y)"
| "float_le NaN b = False"
| "float_le a NaN = False"
| "float_le NInf b = True"
| "float_le a PInf = True"
| "float_le a NInf = False"
| "float_le PInf b = False"

fun isfinite :: "py_float \<Rightarrow> bool" where
  \<comment> \<open>\<open>math.isfinite\<close>.\<close>
  "isfinite (Fin x) = True"
| "isfinite a = False"

fun num_add_float :: "py_num \<Rightarrow> py_float \<Rightarrow> py_error + py_float" where
  \<comment> \<open>\<open>a + y\<close> for a float \<open>y\<close>: an integer \<open>a\<close> is converted first.\<close>
  "num_add_float (PyFloat x) y = Inr (float_add x y)"
| "num_add_float (PyInt i) y =
     (case float_of_int i of Inl e \<Rightarrow> Inl e | Inr x \<Rightarrow> Inr (float_add x y))"

fun num_add :: "py_num \<Rightarrow> py_num \<Rightarrow> py_error + py_num" where
  \<comment> \<open>\<open>a + b\<close>: exact on two integers, in floating point otherwise.\<close>
  "num_add (PyInt i) (PyInt j) = Inr (PyInt (i + j))"
| "num_add a (PyFloat y) =
     (case num_add_float a y of Inl e \<Rightarrow> Inl e | Inr z \<Rightarrow> Inr (PyFloat z))"
| "num_add (PyFloat x) (PyInt j) =
     (case float_of_int j of Inl e \<Rightarrow> Inl e | Inr y \<Rightarrow> Inr (PyFloat (float_add x y)))"

fun float_less_num :: "py_float \<Rightarrow> py_num \<Rightarrow> bool" where
  \<comment> \<open>\<open>x < b\<close> for a float \<open>x\<close>: a float and an integer are compared by their exact
      values, without a conversion.\<close>
  "float_less_num x (PyFloat y) = float_less x y"
| "float_less_num x (PyInt j) = float_less x (Fin (of_int j))"

fun num_nonneg :: "py_num \<Rightarrow> bool" where
  \<comment> \<open>\<open>w >= 0\<close>.\<close>
  "num_nonneg (PyInt i) = (0 \<le> i)"
| "num_nonneg (PyFloat x) = float_le (Fin 0) x"

subsection \<open>The weighted draw of the random module\<close>

function bisect_right :: "py_num list \<Rightarrow> py_float \<Rightarrow> nat \<Rightarrow> nat \<Rightarrow> nat" where
  \<comment> \<open>\<open>bisect.bisect_right(a, x, lo, hi)\<close>, the binary search of the standard library.\<close>
  "bisect_right a x lo hi =
     (if lo < hi then
        (let mid = (lo + hi) div 2 in
         if float_less_num x (a ! mid) then bisect_right a x lo mid
         else bisect_right a x (mid + 1) hi)
      else lo)"
  by pat_completeness auto
termination
  by (relation "measure (\<lambda>(a, x, lo, hi). hi - lo)") auto

declare bisect_right.simps [simp del]

fun accumulate_from :: "py_num \<Rightarrow> py_num list \<Rightarrow> py_error + py_num list" where
  \<comment> \<open>The running sums that follow the total so far; the first failing addition ends
      the iteration with its error.\<close>
  "accumulate_from acc [] = Inr []"
| "accumulate_from acc (w # ws) =
     (case num_add acc w of
        Inl e \<Rightarrow> Inl e
      | Inr t \<Rightarrow>
          (case accumulate_from t ws of
             Inl e \<Rightarrow> Inl e
           | Inr rest \<Rightarrow> Inr (t # rest)))"

fun accumulate :: "py_num list \<Rightarrow> py_error + py_num list" where
  \<comment> \<open>\<open>list(itertools.accumulate(weights))\<close>: the first item as it is, then the running
      sums.\<close>
  "accumulate [] = Inr []"
| "accumulate (w # ws) =
     (case accumulate_from w ws of Inl e \<Rightarrow> Inl e | Inr rest \<Rightarrow> Inr (w # rest))"

definition random_choices :: "'a list \<Rightarrow> py_num list \<Rightarrow> rng \<Rightarrow> py_error + ('a \<times> rng)" where
  \<comment> \<open>\<open>random.choices(population, weights=weights, k=1)[0]\<close> as CPython 3.9 and later
      compute it: the weights are accumulated, the last running sum is converted to
      float by adding \<open>0.0\<close>, a total that is not positive or not finite raises
      ValueError, and the draw is located by bisection below the last position.\<close>
  "random_choices population weights g =
     (let n = length population in
      case accumulate weights of
        Inl e \<Rightarrow> Inl e
      | Inr cum_weights \<Rightarrow>
          if length cum_weights \<noteq> n then Inl ValueError
          else if cum_weights = [] then Inl IndexError
          else
            (case num_add_float (last cum_weights) (Fin 0) of
               Inl e \<Rightarrow> Inl e
             | Inr total_weight \<Rightarrow>
                 if float_le total_weight (Fin 0) then Inl ValueError
                 else if \<not> isfinite total_weight then Inl ValueError
                 else
                   let (r, g') = random_random g;
                       hi = n - 1
                   in Inr (population !
                             bisect_right cum_weights (float_mul (Fin r) total_weight) 0 hi,
                          g')))"

section \<open>Utility functions\<close>

definition weighted_choice :: "('a \<times> py_num) list \<Rightarrow> rng \<Rightarrow> py_error + ('a \<times> rng)" where
  \<comment> \<open>The dictionary is the list of its items in insertion order.\<close>
  "weighted_choice choices_dict g =
     (let choices = map fst choices_dict;
          weights = map snd choices_dict
      in random_choices choices weights g)"

definition digit_char :: "nat \<Rightarrow> char" where
  "digit_char n = ''0123456789'' ! n"

fun str_nat :: "nat \<Rightarrow> string" where
  \<comment> \<open>The decimal digits of a natural number.\<close>
  "str_nat n =
     (if n < 10 then [digit_char n]
      else str_nat (n div 10) @ [digit_char (n mod 10)])"

declare str_nat.simps [simp del]

definition str_int :: "int \<Rightarrow> string" where
  \<comment> \<open>\<open>str(i)\<close>, as an f-string writes an integer.\<close>
  "str_int i = (if i < 0 then CHR ''-'' # str_nat (nat (- i)) else str_nat (nat i))"

subsection \<open>Calendar dates\<close>

record date =
  d_year :: int
  d_month :: int
  d_day :: int

definition is_leap :: "int \<Rightarrow> bool" where
  "is_leap y = (y mod 4 = 0 \<and> (y mod 100 \<noteq> 0 \<or> y mod 400 = 0))"

definition days_in_month :: "int \<Rightarrow> int \<Rightarrow> int" where
  "days_in_month y m =
     (if m = 2 then (if is_leap y then 29 else 28)
      else if m = 4 \<or> m = 6 \<or> m = 9 \<or> m = 11 then 30 else 31)"

definition datetime_date :: "int \<Rightarrow> int \<Rightarrow> int \<Rightarrow> py_error + date" where
  \<comment> \<open>\<open>datetime.date(year, month, day)\<close>: years 1 to 9999, and a day of the month.\<close>
  "datetime_date y m d =
     (if y < 1 \<or> 9999 < y \<or> m < 1 \<or> 12 < m \<or> d < 1 \<or> days_in_month y m < d
      then Inl ValueError
      else Inr \<lparr>d_year = y, d_month = m, d_day = d\<rparr>)"

definition date_less :: "date \<Rightarrow> date \<Rightarrow> bool" where
  \<comment> \<open>Dates compare as the triples (year, month, day).\<close>
  "date_less a b =
     (d_year a < d_year b \<or>
      (d_year a = d_year b \<and>
       (d_month a < d_month b \<or> (d_month a = d_month b \<and> d_day a < d_day b))))"

definition get_term_by_date :: "date \<Rightarrow> string" where
  "get_term_by_date dt =
     (let month = d_month dt; year = d_year dt in
      if 1 \<le> month \<and> month \<le> 5 then ''Spring'' @ str_int year
      else if 6 \<le> month \<and> month \<le> 7 then ''Summer'' @ str_int year
      else ''Fall'' @ str_int year)"

section \<open>Data generation: academic terms\<close>

definition TERMS_TO_GENERATE :: nat where
  "TERMS_TO_GENERATE = 12"

definition HISTORY_YEARS :: int where
  "HISTORY_YEARS = 4"

text \<open>
  A term is the dictionary \<open>generate_terms\<close> appends. The two dates are kept as dates;
  the source stores their \<open>%Y-%m-%d\<close> text.
\<close>

record acad_term =
  t_id :: string
  t_name :: string
  t_startDate :: date
  t_endDate :: date
  t_type :: string

definition term_info :: "(string \<times> int \<times> int \<times> int \<times> int) list" where
  \<comment> \<open>Per season: start month, start day, end month, end day, in the dictionary's order.\<close>
  "term_info =
     [(''Spring'', 1, 25, 5, 15), (''Summer'', 6, 1, 7, 30), (''Fall'', 8, 25, 12, 15)]"

fun terms_of_year ::
  "int \<Rightarrow> (string \<times> int \<times> int \<times> int \<times> int) list \<Rightarrow> acad_term list \<Rightarrow> py_error + acad_term list"
where
  \<comment> \<open>The inner loop over the seasons of one year; it stops at the cap (\<open>break\<close>).\<close>
  "terms_of_year y [] terms = Inr terms"
| "terms_of_year y ((term_name, sm, sd, em, ed) # rest) terms =
     (if TERMS_TO_GENERATE \<le> length terms then Inr terms
      else
        (case datetime_date y sm sd of
           Inl e \<Rightarrow> Inl e
         | Inr start_date \<Rightarrow>
             (case datetime_date y em ed of
                Inl e \<Rightarrow> Inl e
              | Inr end_date \<Rightarrow>
                  terms_of_year y rest
                    (terms @
                     [\<lparr>t_id = term_name @ str_int y,
                       t_name = term_name @ '' '' @ str_int y,
                       t_startDate = start_date,
                       t_endDate = end_date,
                       t_type = term_name\<rparr>]))))"

fun terms_of_years :: "int list \<Rightarrow> acad_term list \<Rightarrow> py_error + acad_term list" where
  \<comment> \<open>The outer loop over the years.\<close>
  "terms_of_years [] terms = Inr terms"
| "terms_of_years (y # ys) terms =
     (case terms_of_year y term_info terms of
        Inl e \<Rightarrow> Inl e
      | Inr terms' \<Rightarrow> terms_of_years ys terms')"

definition generate_terms :: "int \<Rightarrow> py_error + acad_term list" where
  \<comment> \<open>The argument is \<open>datetime.datetime.now().year\<close>.\<close>
  "generate_terms current_year =
     (let start_year = current_year - HISTORY_YEARS;
          end_year = current_year + 1
      in terms_of_years [start_year..end_year] [])"

definition chronological :: "acad_term list \<Rightarrow> bool" where
  \<comment> \<open>Each term starts strictly before every later term of the list.\<close>
  "chronological ts = sorted_wrt date_less (map t_startDate ts)"

definition before_year :: "int \<Rightarrow> acad_term list \<Rightarrow> bool" where
  "before_year y ts = list_all (\<lambda>t. d_year (t_startDate t) < y) ts"

section \<open>Configuration and courses\<close>

definition MAX_PREREQS_PER_COURSE :: int where
  "MAX_PREREQS_PER_COURSE = 3"

definition DEPARTMENTS :: "string list" where
  "DEPARTMENTS =
     [''Computer Science'', ''Information Systems'', ''Mathematics'', ''Physics'',
      ''Chemistry'', ''Biology'', ''Psychology'', ''English'', ''History'',
      ''Political Science'', ''Sociology'', ''Economics'', ''Visual Arts'', ''Music'',
      ''Engineering'']"

text \<open>
  A course is the dictionary \<open>generate_courses\<close> builds. The four success rates are
  absent from the courses added to reach \<open>NUM_COURSES\<close>, hence optional.
\<close>

record course =
  c_id :: string
  c_name :: string
  c_department :: string
  c_credits :: int
  c_level :: int
  c_avgDifficulty :: int
  c_avgTimeCommitment :: int
  c_termAvailability :: "string list"
  c_instructionModes :: "string list"
  c_tags :: "string list"
  c_visualLearnerSuccess :: "rat option"
  c_auditoryLearnerSuccess :: "rat option"
  c_kinestheticLearnerSuccess :: "rat option"
  c_readingLearnerSuccess :: "rat option"

function py_range :: "int \<Rightarrow> int \<Rightarrow> int \<Rightarrow> int list" where
  \<comment> \<open>\<open>range(start, stop, step)\<close> for a positive step, the only kind the generator uses.\<close>
  "py_range start stop step =
     (if 0 < step \<and> start < stop then start # py_range (start + step) stop step else [])"
  by pat_completeness auto
termination
  by (relation "measure (\<lambda>(start, stop, step). nat (stop - start))") auto

declare py_range.simps [simp del]

section \<open>Data generation: prerequisites\<close>

record prerequisite =
  p_source :: string
  p_target :: string
  p_strength :: string
  p_minGrade :: string

definition by_dept_level :: "course list \<Rightarrow> string \<times> int \<Rightarrow> course list" where
  \<comment> \<open>The \<open>defaultdict\<close> grouping the courses by (department, level): the entry of a key,
      empty for a key that is not in the dictionary.\<close>
  "by_dept_level courses key = filter (\<lambda>c. (c_department c, c_level c) = key) courses"

definition lower_level_courses :: "course list \<Rightarrow> string \<Rightarrow> int \<Rightarrow> course list" where
  \<comment> \<open>\<open>for l in range(100, level, 100): if (dept, l) in by_dept_level: extend\<close>.\<close>
  "lower_level_courses courses dept level =
     concat (map (\<lambda>l. by_dept_level courses (dept, l)) (py_range 100 level 100))"

definition other_department_courses :: "course list \<Rightarrow> string \<Rightarrow> int \<Rightarrow> course list" where
  \<comment> \<open>\<open>for d in DEPARTMENTS: if d != dept: ...\<close>, the widening to the other departments.\<close>
  "other_department_courses courses dept level =
     concat (map (\<lambda>d. if d \<noteq> dept then lower_level_courses courses d level else [])
               DEPARTMENTS)"

fun prerequisite_edges ::
  "course \<Rightarrow> course list \<Rightarrow> rng \<Rightarrow> py_error + (prerequisite list \<times> rng)"
where
  \<comment> \<open>\<open>for prereq in selected_prereqs\<close>: the edges appended for one course.\<close>
  "prerequisite_edges course [] g = Inr ([], g)"
| "prerequisite_edges course (prereq # rest) g =
     (let (r, g1) = random_random g;
          strength = (if r < 8 / 10 then ''Required'' else ''Recommended'')
      in case (if strength = ''Required''
               then random_choice [''C'', ''C-'', ''D'', ''D-''] g1
               else Inr ('''', g1)) of
           Inl e \<Rightarrow> Inl e
         | Inr (min_grade, g2) \<Rightarrow>
             (case prerequisite_edges course rest g2 of
                Inl e \<Rightarrow> Inl e
              | Inr (edges, g3) \<Rightarrow>
                  Inr (\<lparr>p_source = c_id prereq, p_target = c_id course,
                         p_strength = strength, p_minGrade = min_grade\<rparr> # edges, g3)))"

definition prereq_count_draw :: "int \<Rightarrow> rng \<Rightarrow> py_error + (int \<times> rng)" where
  \<comment> \<open>The number of prerequisites drawn for a level (\<open>if level <= 200: ... elif ...\<close>).\<close>
  "prereq_count_draw level g =
     (if level \<le> 200 then random_randint 0 1 g
      else if level \<le> 300 then random_randint 1 2 g
      else if level \<le> 400 then random_randint 1 3 g
      else random_randint 2 MAX_PREREQS_PER_COURSE g)"

definition course_prerequisites ::
  "course list \<Rightarrow> course \<Rightarrow> rng \<Rightarrow> py_error + (prerequisite list \<times> rng)"
where
  \<comment> \<open>The body of \<open>for course in courses\<close>: the edges into one course.\<close>
  "course_prerequisites courses course g =
     (let dept = c_department course; level = c_level course in
      if level > 100 then
        (case prereq_count_draw level g of
           Inl e \<Rightarrow> Inl e
         | Inr (n, g1) \<Rightarrow>
             (let num_prereqs = min n MAX_PREREQS_PER_COURSE;
                  same_dept = lower_level_courses courses dept level;
                  potential_prereqs =
                    (if int (length same_dept) < num_prereqs
                     then same_dept @ other_department_courses courses dept level
                     else same_dept);
                  num_prereqs = min num_prereqs (int (length potential_prereqs))
              in case (if num_prereqs > 0 then random_sample potential_prereqs num_prereqs g1
                       else Inr ([], g1)) of
                   Inl e \<Rightarrow> Inl e
                 | Inr (selected_prereqs, g2) \<Rightarrow> prerequisite_edges course selected_prereqs g2))
      else Inr ([], g))"

fun prerequisites_loop ::
  "course list \<Rightarrow> course list \<Rightarrow> prerequisite list \<Rightarrow> rng \<Rightarrow>
   py_error + (prerequisite list \<times> rng)"
where
  "prerequisites_loop courses [] prerequisites g = Inr (prerequisites, g)"
| "prerequisites_loop courses (course # rest) prerequisites g =
     (case course_prerequisites courses course g of
        Inl e \<Rightarrow> Inl e
      | Inr (edges, g1) \<Rightarrow> prerequisites_loop courses rest (prerequisites @ edges) g1)"

definition generate_prerequisites ::
  "course list \<Rightarrow> rng \<Rightarrow> py_error + (prerequisite list \<times> rng)"
where
  "generate_prerequisites courses g = prerequisites_loop courses courses [] g"

definition prerequisite_graph :: "prerequisite list \<Rightarrow> (string \<times> string) set" where
  \<comment> \<open>The PREREQUISITE_FOR edges as a relation on course ids.\<close>
  "prerequisite_graph prerequisites = set (map (\<lambda>e. (p_source e, p_target e)) prerequisites)"


definition candidate_pool :: "course list \<Rightarrow> course \<Rightarrow> course list" where
  \<comment> \<open>The widest pool a course's prerequisites are sampled from: the lower-level courses
      of its department, then those of the other departments.\<close>
  "candidate_pool courses course =
     lower_level_courses courses (c_department course) (c_level course) @
     other_department_courses courses (c_department course) (c_level course)"

definition selection_of :: "course list \<Rightarrow> course \<Rightarrow> prerequisite list \<Rightarrow> bool" where
  \<comment> \<open>The edges are those of a selection from the course's pool, of at most the cap.\<close>
  "selection_of courses course edges =
     (\<exists>selected. map p_source edges = map c_id selected \<and>
        (\<forall>e \<in> set edges. p_target e = c_id course) \<and>
        mset selected \<subseteq># mset (candidate_pool courses course) \<and>
        int (length selected) \<le> MAX_PREREQS_PER_COURSE)"

definition level_increasing :: "course list \<Rightarrow> prerequisite \<Rightarrow> bool" where
  \<comment> \<open>The edge leads from a course of the list to one of a strictly higher level.\<close>
  "level_increasing courses e =
     (\<exists>p \<in> set courses. \<exists>c \<in> set courses.
        p_source e = c_id p \<and> p_target e = c_id c \<and> c_level p < c_level c)"

section \<open>Facts about the random module\<close>

lemma random_random_range:
  "random_random g = (r, g') \<Longrightarrow> 0 \<le> r \<and> r < 1"
  by (auto simp: random_random_def frac_lt_1 split: list.splits)

lemma randbelow_less:
  assumes "randbelow n g = (j, g')" and "0 < n"
  shows "j < n"
proof -
  obtain r g1 where rr: "random_random g = (r, g1)"
    by (cases "random_random g") auto
  then have r: "0 \<le> r" "r < 1"
    using random_random_range by blast+
  have j: "j = nat \<lfloor>r * of_nat n\<rfloor>"
    using assms(1) rr by (simp add: randbelow_def)
  have "r * of_nat n < of_nat n"
    using r(2) assms(2) by simp
  then have "\<lfloor>r * of_nat n\<rfloor> < int n"
    by (simp add: floor_less_iff)
  then show ?thesis
    using j assms(2) by linarith
qed

lemma bisect_right_bounds:
  "lo \<le> hi \<Longrightarrow> lo \<le> bisect_right a x lo hi \<and> bisect_right a x lo hi \<le> hi"
proof (induction a x lo hi rule: bisect_right.induct)
  case (1 a x lo hi)
  note eq = bisect_right.simps[of a x lo hi]
  show ?case
  proof (cases "lo < hi")
    case False
    then have "bisect_right a x lo hi = lo" using eq by simp
    with "1.prems" show ?thesis by simp
  next
    case True
    define mid where "mid = (lo + hi) div 2"
    have m: "lo \<le> mid" "mid < hi"
      using True by (simp_all add: mid_def)
    show ?thesis
    proof (cases "float_less_num x (a ! mid)")
      case lt: True
      have r: "bisect_right a x lo hi = bisect_right a x lo mid"
        using eq True lt by (simp add: mid_def Let_def)
      have "lo \<le> bisect_right a x lo mid \<and> bisect_right a x lo mid \<le> mid"
        using "1.IH"(1)[OF True mid_def lt] m by simp
      then show ?thesis using r m by simp
    next
      case ge: False
      have r: "bisect_right a x lo hi = bisect_right a x (mid + 1) hi"
        using eq True ge by (simp add: mid_def Let_def)
      have "mid + 1 \<le> bisect_right a x (mid + 1) hi \<and> bisect_right a x (mid + 1) hi \<le> hi"
        using "1.IH"(2)[OF True mid_def ge] m by simp
      then show ?thesis using r m by simp
    qed
  qed
qed

lemma mset_vacancy:
  assumes "j < length pool"
  shows "add_mset (pool ! j) (mset (butlast (pool[j := last pool]))) = mset pool"
proof (cases pool rule: rev_cases)
  case Nil
  with assms show ?thesis by simp
next
  case (snoc xs l)
  show ?thesis
  proof (cases "j = length xs")
    case True
    then show ?thesis using snoc by simp
  next
    case False
    then have j: "j < length xs" using assms snoc by simp
    then have "pool[j := last pool] = xs[j := l] @ [l]"
      using snoc by (simp add: list_update_append)
    moreover have "pool ! j = xs ! j" using j snoc by (simp add: nth_append)
    moreover have "xs ! j \<in># mset xs" using j by simp
    ultimately show ?thesis
      using j snoc by (simp add: mset_update)
  qed
qed

lemma sample_pool_mset:
  "k \<le> length pool \<Longrightarrow> sample_pool pool k g = (res, g') \<Longrightarrow>
   mset res \<subseteq># mset pool \<and> length res = k"
proof (induction k arbitrary: pool g res g')
  case 0
  then show ?case by simp
next
  case (Suc k)
  obtain j g1 where rb: "randbelow (length pool) g = (j, g1)"
    by (cases "randbelow (length pool) g") auto
  have "0 < length pool" using Suc.prems(1) by linarith
  then have j: "j < length pool"
    using randbelow_less[OF rb] by blast
  define pool' where "pool' = butlast (pool[j := last pool])"
  obtain rest g2 where sp: "sample_pool pool' k g1 = (rest, g2)"
    by (cases "sample_pool pool' k g1") auto
  have res: "res = pool ! j # rest"
    using Suc.prems(2) rb sp by (simp add: pool'_def)
  have "k \<le> length pool'" using Suc.prems(1) by (simp add: pool'_def)
  from Suc.IH[OF this sp] have ih: "mset rest \<subseteq># mset pool'" "length rest = k" by auto
  have "add_mset (pool ! j) (mset rest) \<subseteq># add_mset (pool ! j) (mset pool')"
    using ih(1) by simp
  then have "mset res \<subseteq># mset pool"
    using mset_vacancy[OF j] by (simp add: res pool'_def)
  then show ?case using ih(2) res by simp
qed

lemma random_sample_mset:
  assumes "random_sample population k g = Inr (res, g')"
  shows "mset res \<subseteq># mset population \<and> int (length res) = k"
proof -
  have k: "0 \<le> k" "k \<le> int (length population)"
    and sp: "sample_pool population (nat k) g = (res, g')"
    using assms by (auto simp: random_sample_def split: if_splits)
  have "nat k \<le> length population" using k by simp
  from sample_pool_mset[OF this sp] show ?thesis using k by simp
qed

lemma random_sample_subset:
  "random_sample population k g = Inr (res, g') \<Longrightarrow> set res \<subseteq> set population"
proof -
  assume "random_sample population k g = Inr (res, g')"
  then have "mset res \<subseteq># mset population" using random_sample_mset by blast
  then have "set_mset (mset res) \<subseteq> set_mset (mset population)" by (rule set_mset_mono)
  then show ?thesis by simp
qed

lemma mset_subset_distinct:
  assumes "mset xs \<subseteq># mset ys" and "distinct ys"
  shows "distinct xs"
proof -
  have "count (mset xs) a \<le> 1" for a
  proof -
    have "count (mset ys) a \<le> 1"
      using assms(2) by (simp add: distinct_count_atmost_1)
    then show ?thesis
      using mset_subset_eq_count[OF assms(1), of a] by linarith
  qed
  then show ?thesis
  proof (induction xs)
    case Nil
    then show ?case by simp
  next
    case (Cons x xs)
    have "count (mset (x # xs)) x \<le> 1" using Cons.prems by blast
    then have "x \<notin> set xs" by (simp add: count_mset_0_iff[symmetric] del: count_mset_0_iff)
    moreover have "count (mset xs) a \<le> 1" for a
    proof -
      have "count (mset xs) a \<le> count (mset (x # xs)) a" by simp
      also have "\<dots> \<le> 1" using Cons.prems by blast
      finally show ?thesis .
    qed
    ultimately show ?case using Cons.IH by simp
  qed
qed

lemma random_sample_distinct:
  "random_sample population k g = Inr (res, g') \<Longrightarrow> distinct population \<Longrightarrow> distinct res"
proof -
  assume "random_sample population k g = Inr (res, g')" and d: "distinct population"
  then have "mset res \<subseteq># mset population" using random_sample_mset by blast
  then show ?thesis using d by (rule mset_subset_distinct)
qed

lemma random_sample_total:
  "0 \<le> k \<Longrightarrow> k \<le> int (length population) \<Longrightarrow> \<exists>r. random_sample population k g = Inr r"
  by (simp add: random_sample_def)

lemma random_randint_range:
  "random_randint a b g = Inr (n, g') \<Longrightarrow> a \<le> n \<and> n \<le> b"
proof -
  assume r: "random_randint a b g = Inr (n, g')"
  then have ab: "a \<le> b" by (auto simp: random_randint_def split: if_splits)
  obtain j g1 where rb: "randbelow (nat (b - a + 1)) g = (j, g1)"
    by (cases "randbelow (nat (b - a + 1)) g") auto
  have "j < nat (b - a + 1)" using randbelow_less[OF rb] ab by simp
  moreover have "n = a + int j" using r rb ab by (simp add: random_randint_def)
  ultimately show ?thesis by linarith
qed

lemma random_randint_total:
  "a \<le> b \<Longrightarrow> \<exists>r. random_randint a b g = Inr r"
  by (cases "randbelow (nat (b - a + 1)) g") (simp add: random_randint_def)

lemma random_choice_mem:
  "random_choice xs g = Inr (x, g') \<Longrightarrow> x \<in> set xs"
proof -
  assume r: "random_choice xs g = Inr (x, g')"
  then have ne: "xs \<noteq> []" by (auto simp: random_choice_def split: if_splits)
  obtain j g1 where rb: "randbelow (length xs) g = (j, g1)"
    by (cases "randbelow (length xs) g") auto
  have "j < length xs" using randbelow_less[OF rb] ne by simp
  moreover have "x = xs ! j" using r rb ne by (simp add: random_choice_def)
  ultimately show ?thesis by simp
qed

lemma random_choice_total:
  "xs \<noteq> [] \<Longrightarrow> \<exists>r. random_choice xs g = Inr r"
  by (cases "randbelow (length xs) g") (simp add: random_choice_def)

section \<open>The distribution sampler\<close>

subsection \<open>Evaluating the float arithmetic\<close>

lemma bit_length_nonpos: "n \<le> 0 \<Longrightarrow> bit_length n = 0"
  by (simp add: bit_length.simps)

lemma bit_length_0: "bit_length 0 = 0"
  by (simp add: bit_length_nonpos)

lemma bit_length_neg_numeral: "bit_length (- numeral k) = 0"
  by (simp add: bit_length_nonpos)

lemma bit_length_1: "bit_length 1 = Suc 0"
  by (simp add: bit_length.simps[of 1] bit_length_0)

lemma bit_length_Bit0: "bit_length (numeral (Num.Bit0 k)) = Suc (bit_length (numeral k))"
  by (subst bit_length.simps) simp

lemma bit_length_Bit1: "bit_length (numeral (Num.Bit1 k)) = Suc (bit_length (numeral k))"
  by (subst bit_length.simps) simp

lemmas bit_length_numeral =
  bit_length_0 bit_length_1 bit_length_neg_numeral bit_length_Bit0 bit_length_Bit1

lemma floor_divide_numeral_rat:
  "\<lfloor>(numeral a :: rat) / numeral b\<rfloor> = numeral a div numeral b"
  using floor_divide_of_int_eq[of "numeral a" "numeral b", where ?'a = rat] by simp

lemma ceiling_divide_numeral_rat:
  "\<lceil>(numeral a :: rat) / numeral b\<rceil> = - (- numeral a div numeral b)"
  using ceiling_divide_eq_div[of "numeral a" "numeral b", where ?'a = rat] by simp

lemma floor_one_divide_numeral_rat:
  "\<lfloor>(1 :: rat) / numeral b\<rfloor> = 1 div numeral b"
  using floor_divide_of_int_eq[of 1 "numeral b", where ?'a = rat] by simp

lemma ceiling_one_divide_numeral_rat:
  "\<lceil>(1 :: rat) / numeral b\<rceil> = - (- 1 div numeral b)"
  using ceiling_divide_eq_div[of 1 "numeral b", where ?'a = rat] by simp

lemmas float_eval =
  float_round_def ilog2_def pow2_def Let_def bit_length_numeral round_half_even_def
  floor_divide_numeral_rat ceiling_divide_numeral_rat
  floor_one_divide_numeral_rat ceiling_one_divide_numeral_rat

lemma float_round_0: "float_round 0 = Fin 0"
  by (simp add: float_eval)

lemma float_round_1: "float_round 1 = Fin 1"
  by (simp add: float_eval)

lemma float_round_overflow: "float_round (2 ^ 1024) = PInf"
  by (simp add: float_eval)

lemma float_round_tenth: "float_round (1 / 10) = Fin (3602879701896397 / 2 ^ 55)"
  by (simp add: float_eval)

lemma float_round_smallest: "float_round (1 / 2 ^ 1074) = Fin (1 / 2 ^ 1074)"
  by (simp add: float_eval)

lemma float_round_underflow: "float_round (1 / 2 ^ 1075) = Fin 0"
  by (simp add: float_eval)

text \<open>
  Two integers on either side of the largest double, \<open>2 ^ 1024 - 2 ^ 971\<close>: the first
  lies below the midpoint to \<open>2 ^ 1024\<close> and is rounded down, the second is the midpoint
  and, as a tie, goes to the even neighbour \<open>2 ^ 1024\<close>, which no double holds.
\<close>

lemma float_round_largest:
  "float_round (2 ^ 1024 - 2 ^ 970 - 1) = Fin (2 ^ 1024 - 2 ^ 971)"
  by (simp add: float_eval)

lemma float_round_midpoint: "float_round (2 ^ 1024 - 2 ^ 970) = PInf"
  by (simp add: float_eval)

subsection \<open>The running sums\<close>

lemma accumulate_from_length:
  "accumulate_from acc ws = Inr cum_weights \<Longrightarrow> length cum_weights = length ws"
  by (induction ws arbitrary: acc cum_weights) (auto split: sum.splits)

lemma accumulate_length:
  "accumulate ws = Inr cum_weights \<Longrightarrow> length cum_weights = length ws"
  by (cases ws) (auto split: sum.splits dest: accumulate_from_length)

subsection \<open>The outcome of a weighted draw\<close>

text \<open>
  Claim C6, as the code has it. Take a non-empty mapping from outcomes to weights
  (integers or floats) whose running sums can be formed and whose total, the last running
  sum converted to float as \<open>random.choices\<close> computes it, is finite and greater than zero.
  Then \<open>weighted_choice\<close> does not fail: it returns one outcome, and that outcome is a key
  of the mapping. For a mapping with a single entry the outcome is that entry's key.
\<close>

theorem weighted_choice_returns_key:
  assumes "choices_dict \<noteq> []"
    and "accumulate (map snd choices_dict) = Inr cum_weights"
    and "num_add_float (last cum_weights) (Fin 0) = Inr (Fin t)"
    and "0 < t"
  shows "\<exists>k g'. weighted_choice choices_dict g = Inr (k, g') \<and>
           k \<in> fst ` set choices_dict \<and>
           (\<forall>k0 w0. choices_dict = [(k0, w0)] \<longrightarrow> k = k0)"
proof -
  define ws where "ws = map snd choices_dict"
  define ks where "ks = map fst choices_dict"
  have acc: "accumulate ws = Inr cum_weights" using assms(2) by (simp add: ws_def)
  have len: "length cum_weights = length ks"
    using accumulate_length[OF acc] by (simp add: ws_def ks_def)
  have ne: "ks \<noteq> []" "cum_weights \<noteq> []"
    using assms(1) len by (auto simp: ks_def)
  obtain r g1 where rr: "random_random g = (r, g1)" by (cases "random_random g") auto
  define i where
    "i = bisect_right cum_weights (float_mul (Fin r) (Fin t)) 0 (length ks - 1)"
  have "i \<le> length ks - 1" using bisect_right_bounds[of 0 "length ks - 1"] by (simp add: i_def)
  then have i: "i < length ks" using ne(1) by (cases ks) auto
  have "random_choices ks ws g = Inr (ks ! i, g1)"
    using acc len ne assms(3,4) rr by (simp add: random_choices_def Let_def i_def)
  then have res: "weighted_choice choices_dict g = Inr (ks ! i, g1)"
    by (simp add: weighted_choice_def Let_def ks_def ws_def)
  have mem: "ks ! i \<in> set ks" using i by simp
  then have key: "ks ! i \<in> fst ` set choices_dict" by (simp add: ks_def)
  have single: "\<forall>k0 w0. choices_dict = [(k0, w0)] \<longrightarrow> ks ! i = k0"
    using mem by (auto simp: ks_def)
  from res key single show ?thesis by blast
qed

theorem weighted_choice_returns_key_witness:
  "\<exists>k g'. weighted_choice [(''A'', PyFloat (Fin (1 / 4))), (''B'', PyFloat (Fin (3 / 4)))]
             [1 / 2] = Inr (k, g') \<and>
          k \<in> fst ` set [(''A'', PyFloat (Fin (1 / 4))), (''B'', PyFloat (Fin (3 / 4)))]"
  using weighted_choice_returns_key[of
      "[(''A'', PyFloat (Fin (1 / 4))), (''B'', PyFloat (Fin (3 / 4)))]"
      "[PyFloat (Fin (1 / 4)), PyFloat (Fin 1)]" 1 "[1 / 2]"]
  by (simp add: float_round_1)

text \<open>
  The claim as the specification words it admits every non-empty table of non-negative
  weights. The table with the single entry \<open>A\<close> of weight 0 is one, and on it the call
  raises ValueError whatever the random source holds.
\<close>

theorem weighted_choice_zero_total_counterexample:
  "[(''A'', PyInt 0)] \<noteq> [] \<and> list_all (\<lambda>(k, w). num_nonneg w) [(''A'', PyInt 0)] \<and>
   (\<forall>g. weighted_choice [(''A'', PyInt 0)] g = Inl ValueError)"
  by (simp add: weighted_choice_def random_choices_def float_of_int_def float_round_0)

text \<open>
  A positive weight does not rule a failure out either. Two weights of \<open>2 ^ 1023\<close> add up
  beyond the largest double and an infinite weight gives an infinite total: the call
  raises ValueError. An integer weight of \<open>2 ^ 1024\<close> cannot be converted to float: the
  call raises OverflowError.
\<close>

lemma weighted_choice_overflowing_total:
  "list_all (\<lambda>(k, w). num_nonneg w)
     [(''A'', PyFloat (Fin (2 ^ 1023))), (''B'', PyFloat (Fin (2 ^ 1023)))] \<and>
   (\<forall>g. weighted_choice [(''A'', PyFloat (Fin (2 ^ 1023))), (''B'', PyFloat (Fin (2 ^ 1023)))] g
        = Inl ValueError)"
  by (simp add: weighted_choice_def random_choices_def float_eval)

lemma weighted_choice_infinite_weight:
  "list_all (\<lambda>(k, w). num_nonneg w) [(''A'', PyFloat PInf)] \<and>
   (\<forall>g. weighted_choice [(''A'', PyFloat PInf)] g = Inl ValueError)"
  by (simp add: weighted_choice_def random_choices_def)

lemma weighted_choice_huge_integer:
  "list_all (\<lambda>(k, w). num_nonneg w) [(''A'', PyInt (2 ^ 1024))] \<and>
   (\<forall>g. weighted_choice [(''A'', PyInt (2 ^ 1024))] g = Inl OverflowError)"
proof -
  have "float_round (rat_of_int (2 ^ 1024)) = PInf"
    using float_round_overflow by simp
  then show ?thesis
    by (simp add: weighted_choice_def random_choices_def float_of_int_def)
qed

section \<open>The term generator\<close>

lemma datetime_date_Inr:
  "datetime_date y m d = Inr dt \<Longrightarrow> dt = \<lparr>d_year = y, d_month = m, d_day = d\<rparr>"
  by (auto simp: datetime_date_def split: if_splits)

lemma terms_of_year_length:
  "terms_of_year y info ts = Inr ts' \<Longrightarrow> length ts \<le> TERMS_TO_GENERATE \<Longrightarrow>
   length ts' \<le> TERMS_TO_GENERATE"
proof (induction info arbitrary: ts)
  case Nil
  then show ?case by simp
next
  case (Cons a info)
  obtain term_name sm sd em ed where a: "a = (term_name, sm, sd, em, ed)"
    by (cases a) auto
  show ?case
    using Cons.prems Cons.IH unfolding a
    by (auto split: if_splits sum.splits)
qed

lemma terms_of_years_length:
  "terms_of_years ys ts = Inr ts' \<Longrightarrow> length ts \<le> TERMS_TO_GENERATE \<Longrightarrow>
   length ts' \<le> TERMS_TO_GENERATE"
proof (induction ys arbitrary: ts)
  case Nil
  then show ?case by simp
next
  case (Cons y ys)
  then show ?case
    by (auto split: sum.splits dest: terms_of_year_length)
qed

lemma terms_of_year_sorted:
  assumes "terms_of_year y term_info ts = Inr ts'"
    and "chronological ts" and "before_year y ts"
  shows "chronological ts' \<and> before_year (y + 1) ts'"
  using assms
  unfolding term_info_def chronological_def before_year_def
  by (auto simp: sorted_wrt_append date_less_def list_all_iff less_Suc_eq_le
      split: if_splits sum.splits dest!: datetime_date_Inr)
    (force+)?

lemma before_year_mono: "before_year y ts \<Longrightarrow> y \<le> z \<Longrightarrow> before_year z ts"
  by (auto simp: before_year_def list_all_iff)

lemma terms_of_years_sorted:
  "terms_of_years ys ts = Inr ts' \<Longrightarrow> sorted_wrt (<) ys \<Longrightarrow> chronological ts \<Longrightarrow>
   (\<forall>y \<in> set ys. before_year y ts) \<Longrightarrow> chronological ts'"
proof (induction ys arbitrary: ts)
  case Nil
  then show ?case by simp
next
  case (Cons y ys)
  from Cons.prems(1) obtain ts1 where
    s1: "terms_of_year y term_info ts = Inr ts1" and s2: "terms_of_years ys ts1 = Inr ts'"
    by (auto split: sum.splits)
  have inv: "chronological ts1" "before_year (y + 1) ts1"
    using terms_of_year_sorted[OF s1] Cons.prems(3,4) by auto
  have "\<forall>z \<in> set ys. before_year z ts1"
  proof
    fix z assume "z \<in> set ys"
    then have "y + 1 \<le> z" using Cons.prems(2) by auto
    then show "before_year z ts1" using inv(2) before_year_mono by blast
  qed
  then show ?case
    using Cons.IH[OF s2] Cons.prems(2) inv(1) by simp
qed

lemma generate_terms_total:
  "5 \<le> y \<Longrightarrow> y \<le> 9999 \<Longrightarrow> \<exists>ts. generate_terms y = Inr ts"
  by (simp add: generate_terms_def HISTORY_YEARS_def upto_rec1 TERMS_TO_GENERATE_def
      term_info_def datetime_date_def days_in_month_def Let_def)

lemma generate_terms_2026:
  "map t_id (projr (generate_terms 2026)) =
     [''Spring2022'', ''Summer2022'', ''Fall2022'', ''Spring2023'', ''Summer2023'',
      ''Fall2023'', ''Spring2024'', ''Summer2024'', ''Fall2024'', ''Spring2025'',
      ''Summer2025'', ''Fall2025'']"
  by (simp add: generate_terms_def HISTORY_YEARS_def upto_rec1 TERMS_TO_GENERATE_def
      term_info_def datetime_date_def days_in_month_def Let_def str_int_def str_nat.simps
      digit_char_def)

text \<open>
  Claim C7. In a year the clock can show from year 5 on, \<open>generate_terms\<close> returns a
  list; and whenever it returns a list, the list has at most \<open>TERMS_TO_GENERATE\<close> terms
  and every term starts strictly before the next one.
\<close>

theorem generate_terms_chronological_capped:
  "(5 \<le> current_year \<and> current_year \<le> 9999 \<longrightarrow> (\<exists>ts. generate_terms current_year = Inr ts)) \<and>
   (\<forall>ts. generate_terms current_year = Inr ts \<longrightarrow>
      length ts \<le> TERMS_TO_GENERATE \<and>
      (\<forall>i. Suc i < length ts \<longrightarrow>
         date_less (t_startDate (ts ! i)) (t_startDate (ts ! Suc i))))"
proof (intro conjI allI impI)
  assume "5 \<le> current_year \<and> current_year \<le> 9999"
  then show "\<exists>ts. generate_terms current_year = Inr ts"
    using generate_terms_total by blast
next
  fix ts assume g: "generate_terms current_year = Inr ts"
  show "length ts \<le> TERMS_TO_GENERATE"
    using g terms_of_years_length[of _ "[]" ts] by (simp add: generate_terms_def Let_def)
next
  fix ts i
  assume g: "generate_terms current_year = Inr ts" and i: "Suc i < length ts"
  have "chronological ts"
    using g terms_of_years_sorted[of _ "[]" ts]
    by (simp add: generate_terms_def Let_def chronological_def before_year_def)
  then show "date_less (t_startDate (ts ! i)) (t_startDate (ts ! Suc i))"
    using i by (auto simp: chronological_def sorted_wrt_iff_nth_less)
qed

theorem generate_terms_chronological_capped_witness:
  "\<exists>ts. generate_terms 2026 = Inr ts \<and> length ts \<le> TERMS_TO_GENERATE \<and>
        map t_id ts =
          [''Spring2022'', ''Summer2022'', ''Fall2022'', ''Spring2023'', ''Summer2023'',
           ''Fall2023'', ''Spring2024'', ''Summer2024'', ''Fall2024'', ''Spring2025'',
           ''Summer2025'', ''Fall2025''] \<and>
        date_less (t_startDate (ts ! 0)) (t_startDate (ts ! 1))"
proof -
  obtain ts where ts: "generate_terms 2026 = Inr ts"
    using generate_terms_chronological_capped[of 2026] by auto
  have "length (map t_id ts) = 12"
    using ts generate_terms_2026 by simp
  then have "Suc 0 < length ts" by simp
  then show ?thesis
    using generate_terms_chronological_capped[of 2026] ts generate_terms_2026 by auto
qed

section \<open>The prerequisite graph\<close>

lemma py_range_upper: "l \<in> set (py_range start stop step) \<Longrightarrow> l < stop"
proof (induction start stop step rule: py_range.induct)
  case (1 start stop step)
  show ?case
  proof (cases "0 < step \<and> start < stop")
    case True
    then have "py_range start stop step = start # py_range (start + step) stop step"
      by (subst py_range.simps) simp
    with "1.prems" have "l = start \<or> l \<in> set (py_range (start + step) stop step)" by auto
    then show ?thesis using True "1.IH" by auto
  next
    case False
    then have "py_range start stop step = []" by (subst py_range.simps) simp
    with "1.prems" show ?thesis by simp
  qed
qed

lemma lower_level_courses_mem:
  "p \<in> set (lower_level_courses courses dept level) \<Longrightarrow>
   p \<in> set courses \<and> c_level p < level \<and> c_department p = dept"
  by (auto simp: lower_level_courses_def by_dept_level_def dest: py_range_upper)

lemma other_department_courses_mem:
  "p \<in> set (other_department_courses courses dept level) \<Longrightarrow>
   p \<in> set courses \<and> c_level p < level"
  by (auto simp: other_department_courses_def dest: lower_level_courses_mem split: if_splits)

lemma prerequisite_edges_Cons:
  assumes "random_random g = (r, g1)"
  shows "prerequisite_edges course (prereq # rest) g =
     (case (if r < 8 / 10 then random_choice [''C'', ''C-'', ''D'', ''D-''] g1
            else Inr ('''', g1)) of
        Inl e \<Rightarrow> Inl e
      | Inr (min_grade, g2) \<Rightarrow>
          (case prerequisite_edges course rest g2 of
             Inl e \<Rightarrow> Inl e
           | Inr (edges, g3) \<Rightarrow>
               Inr (\<lparr>p_source = c_id prereq, p_target = c_id course,
                      p_strength = (if r < 8 / 10 then ''Required'' else ''Recommended''),
                      p_minGrade = min_grade\<rparr> # edges, g3)))"
  using assms by (cases "r < 8 / 10") (simp_all add: Let_def)

lemma prerequisite_edges_shape:
  "prerequisite_edges course selected g = Inr (edges, g') \<Longrightarrow>
   map p_source edges = map c_id selected \<and> (\<forall>e \<in> set edges. p_target e = c_id course)"
proof (induction selected arbitrary: g edges g')
  case Nil
  then show ?case by simp
next
  case (Cons prereq rest)
  obtain r g1 where rr: "random_random g = (r, g1)" by (cases "random_random g") auto
  define ch where "ch = (if r < 8 / 10 then random_choice [''C'', ''C-'', ''D'', ''D-''] g1
            else Inr ('''', g1))"
  have eq: "prerequisite_edges course (prereq # rest) g =
     (case ch of
        Inl e \<Rightarrow> Inl e
      | Inr (min_grade, g2) \<Rightarrow>
          (case prerequisite_edges course rest g2 of
             Inl e \<Rightarrow> Inl e
           | Inr (edges, g3) \<Rightarrow>
               Inr (\<lparr>p_source = c_id prereq, p_target = c_id course,
                      p_strength = (if r < 8 / 10 then ''Required'' else ''Recommended''),
                      p_minGrade = min_grade\<rparr> # edges, g3)))"
    unfolding ch_def by (rule prerequisite_edges_Cons[OF rr])
  from Cons.prems obtain mg g2 where c1: "ch = Inr (mg, g2)"
    unfolding eq by (cases ch) auto
  from Cons.prems obtain es g3 where
    rec: "prerequisite_edges course rest g2 = Inr (es, g3)" and
    ed: "edges = \<lparr>p_source = c_id prereq, p_target = c_id course,
             p_strength = (if r < 8 / 10 then ''Required'' else ''Recommended''),
             p_minGrade = mg\<rparr> # es"
    unfolding eq c1 by (cases "prerequisite_edges course rest g2") auto
  from Cons.IH[OF rec] show ?case unfolding ed by simp
qed

lemma prerequisite_edges_total:
  "\<exists>r. prerequisite_edges course selected g = Inr r"
proof (induction selected arbitrary: g)
  case Nil
  then show ?case by simp
next
  case (Cons prereq rest)
  obtain r g1 where rr: "random_random g = (r, g1)" by (cases "random_random g") auto
  obtain mg g2 where ch:
    "(if r < 8 / 10 then random_choice [''C'', ''C-'', ''D'', ''D-''] g1 else Inr ('''', g1))
       = Inr (mg, g2)"
    using random_choice_total[of "[''C'', ''C-'', ''D'', ''D-'']" g1] by (cases "r < 8 / 10") auto
  obtain es g3 where rec: "prerequisite_edges course rest g2 = Inr (es, g3)"
    using Cons.IH[of g2] by auto
  show ?case unfolding prerequisite_edges_Cons[OF rr] ch by (simp add: rec)
qed

lemma prereq_count_draw_range:
  assumes "prereq_count_draw level g = Inr (n, g1)"
  shows "0 \<le> n \<and> n \<le> MAX_PREREQS_PER_COURSE"
proof -
  consider "random_randint 0 1 g = Inr (n, g1)" | "random_randint 1 2 g = Inr (n, g1)"
    | "random_randint 1 3 g = Inr (n, g1)" | "random_randint 2 3 g = Inr (n, g1)"
    using assms
    by (auto simp: prereq_count_draw_def MAX_PREREQS_PER_COURSE_def split: if_splits)
  then show ?thesis
    by cases (auto simp: MAX_PREREQS_PER_COURSE_def dest!: random_randint_range)
qed

lemma prereq_count_draw_total: "\<exists>r. prereq_count_draw level g = Inr r"
proof -
  have "\<exists>r. random_randint 0 1 g = Inr r" "\<exists>r. random_randint 1 2 g = Inr r"
    "\<exists>r. random_randint 1 3 g = Inr r" "\<exists>r. random_randint 2 3 g = Inr r"
    using random_randint_total[of 0 1 g] random_randint_total[of 1 2 g]
      random_randint_total[of 1 3 g] random_randint_total[of 2 3 g] by simp_all
  then show ?thesis
    unfolding prereq_count_draw_def MAX_PREREQS_PER_COURSE_def by presburger
qed

text \<open>What one iteration of the loop over the courses appends.\<close>

lemma course_prerequisites_selected:
  assumes "course_prerequisites courses course g = Inr (edges, g')"
  shows "\<exists>selected. map p_source edges = map c_id selected \<and>
           (\<forall>e \<in> set edges. p_target e = c_id course) \<and>
           mset selected \<subseteq># mset (candidate_pool courses course) \<and>
           int (length selected) \<le> MAX_PREREQS_PER_COURSE"
proof (cases "c_level course > 100")
  case False
  then have "edges = []" using assms by (simp add: course_prerequisites_def Let_def)
  then show ?thesis
    by (intro exI[of _ "[]"]) (simp add: MAX_PREREQS_PER_COURSE_def)
next
  case True
  obtain n g1 where draw: "prereq_count_draw (c_level course) g = Inr (n, g1)"
    using prereq_count_draw_total[of "c_level course" g] by auto
  have n: "0 \<le> n" "n \<le> MAX_PREREQS_PER_COURSE"
    using prereq_count_draw_range[OF draw] by auto
  define same_dept where
    "same_dept = lower_level_courses courses (c_department course) (c_level course)"
  define potential where
    "potential = (if int (length same_dept) < min n MAX_PREREQS_PER_COURSE
                  then same_dept @ other_department_courses courses (c_department course)
                         (c_level course)
                  else same_dept)"
  define num where "num = min (min n MAX_PREREQS_PER_COURSE) (int (length potential))"
  have pot: "mset potential \<subseteq># mset (candidate_pool courses course)"
    by (simp add: potential_def candidate_pool_def same_dept_def)
  have eq: "course_prerequisites courses course g =
      (case (if num > 0 then random_sample potential num g1 else Inr ([], g1)) of
         Inl e \<Rightarrow> Inl e
       | Inr (selected_prereqs, g2) \<Rightarrow> prerequisite_edges course selected_prereqs g2)"
    using True draw
    unfolding course_prerequisites_def Let_def same_dept_def potential_def num_def
    by (simp split del: if_split cong: if_cong)
  obtain selected g2 where
    sel: "(if num > 0 then random_sample potential num g1 else Inr ([], g1)) = Inr (selected, g2)"
    and ed: "prerequisite_edges course selected g2 = Inr (edges, g')"
    using assms unfolding eq by (auto split: sum.splits)
  have s: "mset selected \<subseteq># mset potential \<and> int (length selected) \<le> num"
  proof (cases "num > 0")
    case True
    then have "random_sample potential num g1 = Inr (selected, g2)" using sel by simp
    from random_sample_mset[OF this] show ?thesis by simp
  next
    case False
    then have "selected = []" using sel by simp
    moreover have "0 \<le> num" using n by (simp add: num_def)
    ultimately show ?thesis by simp
  qed
  have "num \<le> MAX_PREREQS_PER_COURSE" by (simp add: num_def)
  then have len: "int (length selected) \<le> MAX_PREREQS_PER_COURSE" using s by linarith
  have sub: "mset selected \<subseteq># mset (candidate_pool courses course)"
    using s pot by (meson subset_mset.order_trans)
  from prerequisite_edges_shape[OF ed] len sub show ?thesis by blast
qed

lemma course_prerequisites_total:
  "\<exists>r. course_prerequisites courses course g = Inr r"
proof (cases "c_level course > 100")
  case False
  then show ?thesis by (simp add: course_prerequisites_def Let_def)
next
  case True
  obtain n g1 where draw: "prereq_count_draw (c_level course) g = Inr (n, g1)"
    using prereq_count_draw_total[of "c_level course" g] by auto
  have n: "0 \<le> n" using prereq_count_draw_range[OF draw] by auto
  define same_dept where
    "same_dept = lower_level_courses courses (c_department course) (c_level course)"
  define potential where
    "potential = (if int (length same_dept) < min n MAX_PREREQS_PER_COURSE
                  then same_dept @ other_department_courses courses (c_department course)
                         (c_level course)
                  else same_dept)"
  define num where "num = min (min n MAX_PREREQS_PER_COURSE) (int (length potential))"
  have eq: "course_prerequisites courses course g =
      (case (if num > 0 then random_sample potential num g1 else Inr ([], g1)) of
         Inl e \<Rightarrow> Inl e
       | Inr (selected_prereqs, g2) \<Rightarrow> prerequisite_edges course selected_prereqs g2)"
    using True draw
    unfolding course_prerequisites_def Let_def same_dept_def potential_def num_def
    by (simp split del: if_split cong: if_cong)
  have "num \<le> int (length potential)" by (simp add: num_def)
  then obtain selected g2 where
    sel: "(if num > 0 then random_sample potential num g1 else Inr ([], g1)) = Inr (selected, g2)"
    using random_sample_total[of num potential g1] by (cases "num > 0") auto
  obtain r where "prerequisite_edges course selected g2 = Inr r"
    using prerequisite_edges_total by blast
  then show ?thesis unfolding eq sel by simp
qed

lemma candidate_pool_mem:
  "p \<in> set (candidate_pool courses course) \<Longrightarrow>
   p \<in> set courses \<and> c_level p < c_level course"
  by (auto simp: candidate_pool_def
      dest: lower_level_courses_mem other_department_courses_mem)

lemma selection_of_level_increasing:
  assumes "selection_of courses course edges" and "course \<in> set courses" and "e \<in> set edges"
  shows "level_increasing courses e"
proof -
  obtain selected where sel: "map p_source edges = map c_id selected"
    and tgt: "\<forall>e \<in> set edges. p_target e = c_id course"
    and sub: "mset selected \<subseteq># mset (candidate_pool courses course)"
    using assms(1) unfolding selection_of_def by blast
  have "p_source e \<in> set (map p_source edges)" using assms(3) by simp
  then have "p_source e \<in> set (map c_id selected)" using sel by simp
  then obtain p where p: "p \<in> set selected" "p_source e = c_id p" by auto
  have "set_mset (mset selected) \<subseteq> set_mset (mset (candidate_pool courses course))"
    using sub by (rule set_mset_mono)
  then have "p \<in> set (candidate_pool courses course)" using p(1) by auto
  then have "p \<in> set courses" "c_level p < c_level course"
    using candidate_pool_mem by blast+
  moreover have "p_target e = c_id course" using tgt assms(3) by blast
  ultimately show ?thesis
    unfolding level_increasing_def using assms(2) p(2) by blast
qed

lemma prerequisites_loop_Cons:
  assumes "prerequisites_loop courses (course # rest) acc g = Inr (res, g')"
  obtains edges g1 where "course_prerequisites courses course g = Inr (edges, g1)"
    and "prerequisites_loop courses rest (acc @ edges) g1 = Inr (res, g')"
  using assms by (auto split: sum.splits)

lemma prerequisites_loop_level_increasing:
  "prerequisites_loop courses cs acc g = Inr (res, g') \<Longrightarrow> set cs \<subseteq> set courses \<Longrightarrow>
   (\<forall>e \<in> set acc. level_increasing courses e) \<Longrightarrow>
   (\<forall>e \<in> set res. level_increasing courses e)"
proof (induction cs arbitrary: acc g)
  case Nil
  then show ?case by simp
next
  case (Cons course rest)
  from Cons.prems(1) obtain edges g1 where
    step: "course_prerequisites courses course g = Inr (edges, g1)" and
    rec: "prerequisites_loop courses rest (acc @ edges) g1 = Inr (res, g')"
    by (rule prerequisites_loop_Cons)
  have "selection_of courses course edges"
    using course_prerequisites_selected[OF step] by (simp add: selection_of_def)
  moreover have "course \<in> set courses" using Cons.prems(2) by simp
  ultimately have "\<forall>e \<in> set edges. level_increasing courses e"
    using selection_of_level_increasing by blast
  then have "\<forall>e \<in> set (acc @ edges). level_increasing courses e"
    using Cons.prems(3) by auto
  moreover have "set rest \<subseteq> set courses" using Cons.prems(2) by simp
  ultimately show ?case using Cons.IH[OF rec] by blast
qed

lemma prerequisites_loop_total:
  "\<exists>r. prerequisites_loop courses cs acc g = Inr r"
proof (induction cs arbitrary: acc g)
  case Nil
  then show ?case by simp
next
  case (Cons course rest)
  obtain edges g1 where step: "course_prerequisites courses course g = Inr (edges, g1)"
    using course_prerequisites_total[of courses course g] by auto
  obtain r where "prerequisites_loop courses rest (acc @ edges) g1 = Inr r"
    using Cons.IH by blast
  then show ?case using step by simp
qed
















lemma level_of_id:
  assumes "distinct (map c_id courses)" and "p \<in> set courses"
  shows "map_of (map (\<lambda>c. (c_id c, c_level c)) courses) (c_id p) = Some (c_level p)"
proof -
  have "distinct (map fst (map (\<lambda>c. (c_id c, c_level c)) courses))"
    using assms(1) by (simp add: comp_def)
  moreover have "(c_id p, c_level p) \<in> set (map (\<lambda>c. (c_id c, c_level c)) courses)"
    using assms(2) by auto
  ultimately show ?thesis by (rule map_of_is_SomeI)
qed

lemma level_increasing_acyclic:
  assumes "distinct (map c_id courses)"
    and "\<forall>e \<in> set prerequisites. level_increasing courses e"
  shows "acyclic (prerequisite_graph prerequisites)"
proof -
  define lvl where
    "lvl i = (case map_of (map (\<lambda>c. (c_id c, c_level c)) courses) i of
                Some l \<Rightarrow> l | None \<Rightarrow> 0)" for i
  have "- lvl b < - lvl a" if "(a, b) \<in> prerequisite_graph prerequisites" for a b
  proof -
    from that obtain e where e: "e \<in> set prerequisites" "a = p_source e" "b = p_target e"
      by (auto simp: prerequisite_graph_def)
    then obtain p c where pc: "p \<in> set courses" "c \<in> set courses"
      "a = c_id p" "b = c_id c" "c_level p < c_level c"
      using assms(2) unfolding level_increasing_def by auto
    have "lvl a = c_level p" "lvl b = c_level c"
      using level_of_id[OF assms(1)] pc by (simp_all add: lvl_def)
    then show ?thesis using pc(5) by simp
  qed
  then show ?thesis by (rule acyclicI_order)
qed

lemma generate_prerequisites_level_increasing:
  assumes "generate_prerequisites courses g = Inr (prerequisites, g')"
  shows "\<forall>e \<in> set prerequisites. level_increasing courses e"
  using prerequisites_loop_level_increasing[of courses courses "[]" g prerequisites g'] assms
  by (simp add: generate_prerequisites_def)

lemma generate_prerequisites_total:
  "\<exists>prerequisites g'. generate_prerequisites courses g = Inr (prerequisites, g')"
  using prerequisites_loop_total[of courses courses "[]" g]
  by (auto simp: generate_prerequisites_def)

text \<open>
  Claim C1. \<open>generate_prerequisites\<close> returns for every list of courses. Every edge it
  returns leads from a course of the list to a course of the list of a strictly higher
  level, whatever their departments. When the course ids are unique, the level of the
  course that an edge leaves is below the level of the course it enters, and the edges,
  as a relation on course ids, have no cycle.
\<close>

theorem generate_prerequisites_acyclic:
  "\<exists>prerequisites g'. generate_prerequisites courses g = Inr (prerequisites, g') \<and>
     (\<forall>e \<in> set prerequisites. level_increasing courses e) \<and>
     (distinct (map c_id courses) \<longrightarrow>
        (\<forall>e \<in> set prerequisites. \<forall>p \<in> set courses. \<forall>c \<in> set courses.
           c_id p = p_source e \<and> c_id c = p_target e \<longrightarrow> c_level p < c_level c) \<and>
        acyclic (prerequisite_graph prerequisites))"
proof -
  obtain prerequisites g' where
    gen: "generate_prerequisites courses g = Inr (prerequisites, g')"
    using generate_prerequisites_total by blast
  have inc: "\<forall>e \<in> set prerequisites. level_increasing courses e"
    using generate_prerequisites_level_increasing[OF gen] .
  have "c_level p < c_level c"
    if d: "distinct (map c_id courses)" and e: "e \<in> set prerequisites"
      and p: "p \<in> set courses" and c: "c \<in> set courses"
      and ids: "c_id p = p_source e" "c_id c = p_target e" for e p c
  proof -
    obtain p' c' where pc: "p' \<in> set courses" "c' \<in> set courses"
      "p_source e = c_id p'" "p_target e = c_id c'" "c_level p' < c_level c'"
      using inc e unfolding level_increasing_def by blast
    have "Some (c_level p) = Some (c_level p')"
      using level_of_id[OF d p] level_of_id[OF d pc(1)] ids(1) pc(3) by simp
    moreover have "Some (c_level c) = Some (c_level c')"
      using level_of_id[OF d c] level_of_id[OF d pc(2)] ids(2) pc(4) by simp
    ultimately show ?thesis using pc(5) by simp
  qed
  moreover have "acyclic (prerequisite_graph prerequisites)"
    if "distinct (map c_id courses)"
    using level_increasing_acyclic[OF that inc] .
  ultimately show ?thesis using gen inc by blast
qed

text \<open>
  A run on two courses of one department: the course of level 200 draws one prerequisite
  and gets the course of level 100.
\<close>

lemma generate_prerequisites_two_courses:
  "generate_prerequisites
     [\<lparr>c_id = ''CS101'', c_name = ''Introduction to Programming'',
       c_department = ''Computer Science'', c_credits = 3, c_level = 100,
       c_avgDifficulty = 2, c_avgTimeCommitment = 6, c_termAvailability = [''Fall''],
       c_instructionModes = [''In-person''], c_tags = [],
       c_visualLearnerSuccess = None, c_auditoryLearnerSuccess = None,
       c_kinestheticLearnerSuccess = None, c_readingLearnerSuccess = None\<rparr>,
      \<lparr>c_id = ''CS201'', c_name = ''Data Structures'',
       c_department = ''Computer Science'', c_credits = 3, c_level = 200,
       c_avgDifficulty = 3, c_avgTimeCommitment = 8, c_termAvailability = [''Spring''],
       c_instructionModes = [''In-person''], c_tags = [],
       c_visualLearnerSuccess = None, c_auditoryLearnerSuccess = None,
       c_kinestheticLearnerSuccess = None, c_readingLearnerSuccess = None\<rparr>]
     [1 / 2, 0, 1 / 2, 0] =
   Inr ([\<lparr>p_source = ''CS101'', p_target = ''CS201'', p_strength = ''Required'',
          p_minGrade = ''C''\<rparr>], [])"
  by (simp add: generate_prerequisites_def course_prerequisites_def prereq_count_draw_def
      random_randint_def randbelow_def random_random_def Let_def lower_level_courses_def
      by_dept_level_def py_range.simps[of 100] py_range.simps[of 200] random_sample_def
      random_choice_def MAX_PREREQS_PER_COURSE_def)

theorem generate_prerequisites_acyclic_witness:
  "\<exists>prerequisites g'.
     generate_prerequisites
       [\<lparr>c_id = ''CS101'', c_name = ''Introduction to Programming'',
         c_department = ''Computer Science'', c_credits = 3, c_level = 100,
         c_avgDifficulty = 2, c_avgTimeCommitment = 6, c_termAvailability = [''Fall''],
         c_instructionModes = [''In-person''], c_tags = [],
         c_visualLearnerSuccess = None, c_auditoryLearnerSuccess = None,
         c_kinestheticLearnerSuccess = None, c_readingLearnerSuccess = None\<rparr>,
        \<lparr>c_id = ''CS201'', c_name = ''Data Structures'',
         c_department = ''Computer Science'', c_credits = 3, c_level = 200,
         c_avgDifficulty = 3, c_avgTimeCommitment = 8, c_termAvailability = [''Spring''],
         c_instructionModes = [''In-person''], c_tags = [],
         c_visualLearnerSuccess = None, c_auditoryLearnerSuccess = None,
         c_kinestheticLearnerSuccess = None, c_readingLearnerSuccess = None\<rparr>]
       [1 / 2, 0, 1 / 2, 0] = Inr (prerequisites, g') \<and>
     map (\<lambda>e. (p_source e, p_target e)) prerequisites = [(''CS101'', ''CS201'')] \<and>
     acyclic (prerequisite_graph prerequisites)"
  using generate_prerequisites_acyclic[of
      "[\<lparr>c_id = ''CS101'', c_name = ''Introduction to Programming'',
         c_department = ''Computer Science'', c_credits = 3, c_level = 100,
         c_avgDifficulty = 2, c_avgTimeCommitment = 6, c_termAvailability = [''Fall''],
         c_instructionModes = [''In-person''], c_tags = [],
         c_visualLearnerSuccess = None, c_auditoryLearnerSuccess = None,
         c_kinestheticLearnerSuccess = None, c_readingLearnerSuccess = None\<rparr>,
        \<lparr>c_id = ''CS201'', c_name = ''Data Structures'',
         c_department = ''Computer Science'', c_credits = 3, c_level = 200,
         c_avgDifficulty = 3, c_avgTimeCommitment = 8, c_termAvailability = [''Spring''],
         c_instructionModes = [''In-person''], c_tags = [],
         c_visualLearnerSuccess = None, c_auditoryLearnerSuccess = None,
         c_kinestheticLearnerSuccess = None, c_readingLearnerSuccess = None\<rparr>]"
      "[1 / 2, 0, 1 / 2, 0]"]
  by (simp add: generate_prerequisites_two_courses)

subsection \<open>The number of prerequisites of a course\<close>




end
